theory Spec2Isabelle
  imports Complex_Main "HOL-Library.Word"
begin

unbundle bit_operations_syntax

section \<open>Block index, active chain and the queries of rpcblockchain.cpp\<close>

subsection \<open>Data model\<close>

text \<open>
  A \<open>CBlockIndex*\<close> is an address; address 0 is the null pointer. Addresses are
  compared with \<open><\<close> as the machine compares them. The block index objects live in a
  memory that maps addresses to objects; reading through the null pointer or through an
  address that holds no object is the fault \<open>Segfault\<close>.
\<close>

type_synonym ptr = nat
type_synonym uint256 = "256 word"
type_synonym uint32_t = "32 word"

definition NULL :: ptr where
  "NULL = 0"

text \<open>
  The fields of \<open>CBlockIndex\<close> that rpcblockchain.cpp reads. \<open>nHeight\<close> is a C++
  \<open>int\<close>, kept as an integer; 32-bit results of arithmetic on it go through \<open>int32\<close>.
  \<open>phashBlock\<close> holds the hash that the source reaches through a pointer into the key
  of \<open>mapBlockIndex\<close>.
\<close>

record CBlockIndex =
  phashBlock :: uint256
  pprev :: ptr
  nHeight :: int
  nChainTx :: nat
  nStatus :: uint32_t
  nBits :: uint32_t

text \<open>
  The globals under \<open>cs_main\<close>: the objects, \<open>mapBlockIndex\<close> (the entries in the
  order the loops visit them) and the vector \<open>vChain\<close> inside \<open>chainActive\<close>.
\<close>

record node_state =
  memory :: "ptr \<rightharpoonup> CBlockIndex"
  mapBlockIndex :: "(uint256 \<times> ptr) list"
  chainActive :: "ptr list"

datatype rpc_code = RPC_INVALID_PARAMETER

datatype error =
    Segfault
  | OutOfRange
  | runtime_error string
  | JSONRPCError rpc_code string

definition int32 :: "int \<Rightarrow> int" where
  "int32 x = signed_take_bit 31 x"

definition in_int32 :: "int \<Rightarrow> bool" where
  "in_int32 x \<longleftrightarrow> - (2 ^ 31) \<le> x \<and> x < 2 ^ 31"

definition deref :: "(ptr \<rightharpoonup> CBlockIndex) \<Rightarrow> ptr \<Rightarrow> error + CBlockIndex" where
  "deref m p =
     (if p = NULL then Inl Segfault
      else case m p of None \<Rightarrow> Inl Segfault | Some r \<Rightarrow> Inr r)"

subsection \<open>The comparator of the tip set\<close>

text \<open>
  \<^verbatim>\<open>
  struct CompareBlocksByHeight {
      bool operator()(const CBlockIndex* a, const CBlockIndex* b) const {
          if (a->nHeight != b->nHeight)
            return (a->nHeight > b->nHeight);
          return a < b;
      }
  };
  \<close>
\<close>

definition CompareBlocksByHeight ::
  "(ptr \<rightharpoonup> CBlockIndex) \<Rightarrow> ptr \<Rightarrow> ptr \<Rightarrow> error + bool" where
  "CompareBlocksByHeight m a b =
     (case deref m a of
        Inl e \<Rightarrow> Inl e
      | Inr ra \<Rightarrow>
          (case deref m b of
             Inl e \<Rightarrow> Inl e
           | Inr rb \<Rightarrow>
               if nHeight ra \<noteq> nHeight rb then Inr (nHeight ra > nHeight rb)
               else Inr (a < b)))"

definition is_object :: "(ptr \<rightharpoonup> CBlockIndex) \<Rightarrow> ptr \<Rightarrow> bool" where
  "is_object m p \<longleftrightarrow> p \<noteq> NULL \<and> m p \<noteq> None"

definition height_of :: "(ptr \<rightharpoonup> CBlockIndex) \<Rightarrow> ptr \<Rightarrow> int" where
  "height_of m p = (case m p of None \<Rightarrow> 0 | Some r \<Rightarrow> nHeight r)"

definition before :: "(ptr \<rightharpoonup> CBlockIndex) \<Rightarrow> ptr \<Rightarrow> ptr \<Rightarrow> bool" where
  "before m a b \<longleftrightarrow> CompareBlocksByHeight m a b = Inr True"

subsection \<open>The active chain\<close>

text \<open>
  Modelled from the spec: the class \<open>CChain\<close> of \<open>chainActive\<close> (chain.h) is not
  among the sources. The spec's ActiveChain is "an ordered sequence of node references
  from genesis to the current tip, indexable by height"; \<open>tip()\<close> is the "last element,
  or None if empty", here the null pointer.
\<close>

definition Tip :: "ptr list \<Rightarrow> ptr" where
  "Tip c = (if c = [] then NULL else last c)"

text \<open>
  Modelled from the spec: \<open>CChain::Height\<close> is not among the sources. "height() is the
  current tip height, or a sentinel for the empty chain"; with "the sequence length
  equals tip.height + 1" the height is the length minus one, and the sentinel is -1.
\<close>

definition Height :: "ptr list \<Rightarrow> int" where
  "Height c = int (length c) - 1"

text \<open>
  Modelled from the spec: \<open>CChain::operator[]\<close> is not among the sources. "at(height)
  fails with OutOfRange if height is negative or exceeds current tip height."
\<close>

definition chain_at :: "ptr list \<Rightarrow> int \<Rightarrow> error + ptr" where
  "chain_at c h = (if h < 0 \<or> h > Height c then Inl OutOfRange else Inr (c ! nat h))"

text \<open>
  Modelled from the spec: \<open>CChain::Contains\<close> is not among the sources. "contains(node)
  is true iff the node at that node's height in the sequence is exactly this node",
  compared by identity. Reading the node's height reads through the pointer.
\<close>

definition Contains :: "(ptr \<rightharpoonup> CBlockIndex) \<Rightarrow> ptr list \<Rightarrow> ptr \<Rightarrow> error + bool" where
  "Contains m c p =
     (case deref m p of
        Inl e \<Rightarrow> Inl e
      | Inr r \<Rightarrow> (case chain_at c (nHeight r) of Inl e \<Rightarrow> Inr False | Inr q \<Rightarrow> Inr (q = p)))"


text \<open>
  Modelled from the spec: \<open>CChain::FindFork\<close> is not among the sources. "Walk node's
  parent chain upward while simultaneously checking ActiveChain.contains at each step
  until a common node is found or the walk" leaves the forest, which "returns None";
  here the null pointer. The walk follows the stored parent pointers, so on a memory
  whose parent pointers form a cycle outside the active chain it does not return:
  the value \<open>None\<close> of the option type.
\<close>

partial_function (option) FindFork ::
  "(ptr \<rightharpoonup> CBlockIndex) \<Rightarrow> ptr list \<Rightarrow> ptr \<Rightarrow> (error + ptr) option" where
  "FindFork m c p =
     (case deref m p of
        Inl e \<Rightarrow> Some (Inl e)
      | Inr r \<Rightarrow>
          (case Contains m c p of
             Inl e \<Rightarrow> Some (Inl e)
           | Inr found \<Rightarrow>
               if found then Some (Inr p)
               else if pprev r = NULL then Some (Inr NULL)
               else FindFork m c (pprev r)))"

subsection \<open>Constants and functions of other files\<close>

text \<open>
  The status constants and \<open>CBlockIndex::IsValid\<close> (chain.h), the compact form of the
  proof-of-work limit \<open>UintToArith256(Params().GetConsensus().powLimit).GetCompact()\<close>
  and \<open>GetNextWorkRequired\<close> (pow.cpp) are not among the sources: they are parameters.
\<close>

record externals =
  BLOCK_FAILED_MASK :: uint32_t
  BLOCK_VALID_TREE :: uint32_t
  BLOCK_VALID_SCRIPTS :: uint32_t
  IsValid :: "CBlockIndex \<Rightarrow> uint32_t \<Rightarrow> bool"
  powLimit_compact :: uint32_t
  GetNextWorkRequired :: "(ptr \<rightharpoonup> CBlockIndex) \<Rightarrow> ptr \<Rightarrow> uint32_t"

subsection \<open>JSON values\<close>

text \<open>
  A \<open>UniValue\<close> object is the list of its key and value pairs in the order of the
  \<open>push_back\<close> calls. \<open>VHEX h\<close> is the string \<open>GetHex()\<close> of the hash \<open>h\<close>.
\<close>

datatype UniValue = VNUM int | VSTR string | VHEX uint256

type_synonym json_object = "(string \<times> UniValue) list"

subsection \<open>getchaintips\<close>

text \<open>
  \<open>std::set<const CBlockIndex*, CompareBlocksByHeight>\<close> is the list of its elements in
  the comparator's order. \<open>insert\<close> and \<open>erase\<close> look for the place of their argument
  with the comparator; two pointers are the same element when neither is before the
  other.
\<close>

fun set_insert :: "(ptr \<rightharpoonup> CBlockIndex) \<Rightarrow> ptr \<Rightarrow> ptr list \<Rightarrow> error + ptr list" where
  "set_insert m x [] = Inr [x]"
| "set_insert m x (y # ys) =
     (case CompareBlocksByHeight m x y of
        Inl e \<Rightarrow> Inl e
      | Inr True \<Rightarrow> Inr (x # y # ys)
      | Inr False \<Rightarrow>
          (case CompareBlocksByHeight m y x of
             Inl e \<Rightarrow> Inl e
           | Inr False \<Rightarrow> Inr (y # ys)
           | Inr True \<Rightarrow>
               (case set_insert m x ys of Inl e \<Rightarrow> Inl e | Inr zs \<Rightarrow> Inr (y # zs))))"

fun set_erase :: "(ptr \<rightharpoonup> CBlockIndex) \<Rightarrow> ptr \<Rightarrow> ptr list \<Rightarrow> error + ptr list" where
  "set_erase m x [] = Inr []"
| "set_erase m x (y # ys) =
     (case CompareBlocksByHeight m x y of
        Inl e \<Rightarrow> Inl e
      | Inr True \<Rightarrow> Inr (y # ys)
      | Inr False \<Rightarrow>
          (case CompareBlocksByHeight m y x of
             Inl e \<Rightarrow> Inl e
           | Inr False \<Rightarrow> Inr ys
           | Inr True \<Rightarrow>
               (case set_erase m x ys of Inl e \<Rightarrow> Inl e | Inr zs \<Rightarrow> Inr (y # zs))))"

text \<open>
  \<^verbatim>\<open>
  BOOST_FOREACH(const PAIRTYPE(const uint256, CBlockIndex*)& item, mapBlockIndex)
      setTips.insert(item.second);
  \<close>
\<close>

fun insert_blocks ::
  "(ptr \<rightharpoonup> CBlockIndex) \<Rightarrow> (uint256 \<times> ptr) list \<Rightarrow> ptr list \<Rightarrow> error + ptr list" where
  "insert_blocks m [] setTips = Inr setTips"
| "insert_blocks m (item # items) setTips =
     (case set_insert m (snd item) setTips of
        Inl e \<Rightarrow> Inl e
      | Inr setTips' \<Rightarrow> insert_blocks m items setTips')"

text \<open>
  \<^verbatim>\<open>
  BOOST_FOREACH(const PAIRTYPE(const uint256, CBlockIndex*)& item, mapBlockIndex)
  {
      const CBlockIndex* pprev=0;
      if ( item.second != 0 )
          pprev = item.second->pprev;
      if (pprev)
          setTips.erase(pprev);
  }
  \<close>
\<close>

fun erase_parents ::
  "(ptr \<rightharpoonup> CBlockIndex) \<Rightarrow> (uint256 \<times> ptr) list \<Rightarrow> ptr list \<Rightarrow> error + ptr list" where
  "erase_parents m [] setTips = Inr setTips"
| "erase_parents m (item # items) setTips =
     (if snd item \<noteq> NULL then
        (case deref m (snd item) of
           Inl e \<Rightarrow> Inl e
         | Inr r \<Rightarrow>
             if pprev r \<noteq> NULL then
               (case set_erase m (pprev r) setTips of
                  Inl e \<Rightarrow> Inl e
                | Inr setTips' \<Rightarrow> erase_parents m items setTips')
             else erase_parents m items setTips)
      else erase_parents m items setTips)"

text \<open>The set after the two loops over \<open>mapBlockIndex\<close>.\<close>

definition candidate_tips :: "node_state \<Rightarrow> error + ptr list" where
  "candidate_tips st =
     (case insert_blocks (memory st) (mapBlockIndex st) [] of
        Inl e \<Rightarrow> Inl e
      | Inr all_blocks \<Rightarrow> erase_parents (memory st) (mapBlockIndex st) all_blocks)"

text \<open>
  \<^verbatim>\<open>
  // Always report the currently active tip.
  setTips.insert(chainActive.Tip());
  \<close>
\<close>

definition chain_tips :: "node_state \<Rightarrow> error + ptr list" where
  "chain_tips st =
     (case candidate_tips st of
        Inl e \<Rightarrow> Inl e
      | Inr candidates \<Rightarrow> set_insert (memory st) (Tip (chainActive st)) candidates)"

text \<open>The chain of \<open>if\<close> and \<open>else if\<close> that chooses the status string of a block.\<close>

definition tip_status :: "externals \<Rightarrow> node_state \<Rightarrow> ptr \<Rightarrow> error + string" where
  "tip_status x st block =
     (case Contains (memory st) (chainActive st) block of
        Inl e \<Rightarrow> Inl e
      | Inr True \<Rightarrow> Inr ''active''
      | Inr False \<Rightarrow>
          (case deref (memory st) block of
             Inl e \<Rightarrow> Inl e
           | Inr r \<Rightarrow>
               if nStatus r AND BLOCK_FAILED_MASK x \<noteq> 0 then Inr ''invalid''
               else if nChainTx r = 0 then Inr ''headers-only''
               else if IsValid x r (BLOCK_VALID_SCRIPTS x) then Inr ''valid-fork''
               else if IsValid x r (BLOCK_VALID_TREE x) then Inr ''valid-headers''
               else Inr ''unknown''))"

text \<open>The body of the loops: the object pushed for one block of the tip set.\<close>

definition tip_object ::
  "externals \<Rightarrow> node_state \<Rightarrow> ptr \<Rightarrow> (error + json_object) option" where
  "tip_object x st block =
     (case deref (memory st) block of
        Inl e \<Rightarrow> Some (Inl e)
      | Inr r \<Rightarrow>
          (case FindFork (memory st) (chainActive st) block of
             None \<Rightarrow> None
           | Some (Inl e) \<Rightarrow> Some (Inl e)
           | Some (Inr forked) \<Rightarrow>
               if forked \<noteq> NULL then
                 (case deref (memory st) forked of
                    Inl e \<Rightarrow> Some (Inl e)
                  | Inr rf \<Rightarrow>
                      (case tip_status x st block of
                         Inl e \<Rightarrow> Some (Inl e)
                       | Inr status \<Rightarrow>
                           Some (Inr [(''height'', VNUM (nHeight r)),
                                      (''hash'', VHEX (phashBlock r)),
                                      (''branchlen'', VNUM (int32 (nHeight r - nHeight rf))),
                                      (''status'', VSTR status)])))
               else Some (Inr [(''height'', VNUM (nHeight r)),
                               (''hash'', VHEX (phashBlock r))])))"

text \<open>
  The output loop as the source has it, the loop header written twice:
  \<^verbatim>\<open>
  BOOST_FOREACH(const CBlockIndex* block, setTips)
  BOOST_FOREACH(const CBlockIndex* block, setTips)
      { ... res.push_back(obj); }
  \<close>
  The second header is the body of the first, so the braces run once for every pair
  of elements of the set, on the block of the inner loop.
\<close>

fun inner_loop ::
  "externals \<Rightarrow> node_state \<Rightarrow> ptr list \<Rightarrow> json_object list \<Rightarrow>
   (error + json_object list) option" where
  "inner_loop x st [] res = Some (Inr res)"
| "inner_loop x st (block # blocks) res =
     (case tip_object x st block of
        None \<Rightarrow> None
      | Some (Inl e) \<Rightarrow> Some (Inl e)
      | Some (Inr obj) \<Rightarrow> inner_loop x st blocks (res @ [obj]))"

fun outer_loop ::
  "externals \<Rightarrow> node_state \<Rightarrow> ptr list \<Rightarrow> ptr list \<Rightarrow> json_object list \<Rightarrow>
   (error + json_object list) option" where
  "outer_loop x st setTips [] res = Some (Inr res)"
| "outer_loop x st setTips (block # blocks) res =
     (case inner_loop x st setTips res of
        None \<Rightarrow> None
      | Some (Inl e) \<Rightarrow> Some (Inl e)
      | Some (Inr res') \<Rightarrow> outer_loop x st setTips blocks res')"

text \<open>
  The RPC. The \<open>runtime_error\<close> of a wrong call carries the help text, here its first
  line.
\<close>

definition getchaintips ::
  "externals \<Rightarrow> node_state \<Rightarrow> UniValue list \<Rightarrow> bool \<Rightarrow> (error + json_object list) option" where
  "getchaintips x st params fHelp =
     (if fHelp \<or> length params \<noteq> 0 then Some (Inl (runtime_error ''getchaintips''))
      else
        (case chain_tips st of
           Inl e \<Rightarrow> Some (Inl e)
         | Inr setTips \<Rightarrow> outer_loop x st setTips setTips []))"

subsection \<open>getblockhash\<close>

text \<open>
  \<open>params[0].get_int()\<close> of the JSON library: the \<open>int\<close> of a number that fits one,
  a \<open>runtime_error\<close> for any other value.
\<close>

definition get_int :: "UniValue \<Rightarrow> error + int" where
  "get_int v =
     (case v of
        VNUM n \<Rightarrow>
          if in_int32 n then Inr n else Inl (runtime_error ''JSON integer out of range'')
      | _ \<Rightarrow> Inl (runtime_error ''JSON value is not an integer as expected''))"

text \<open>
  \<^verbatim>\<open>
  int nHeight = params[0].get_int();
  if (nHeight < 0 || nHeight > chainActive.Height())
      throw JSONRPCError(RPC_INVALID_PARAMETER, "Block height out of range");
  CBlockIndex* pblockindex = chainActive[nHeight];
  return pblockindex->GetBlockHash().GetHex();
  \<close>
\<close>

definition getblockhash :: "node_state \<Rightarrow> UniValue list \<Rightarrow> bool \<Rightarrow> error + UniValue" where
  "getblockhash st params fHelp =
     (if fHelp \<or> length params \<noteq> 1 then Inl (runtime_error ''getblockhash index'')
      else
        (case get_int (params ! 0) of
           Inl e \<Rightarrow> Inl e
         | Inr height \<Rightarrow>
             if height < 0 \<or> height > Height (chainActive st)
             then Inl (JSONRPCError RPC_INVALID_PARAMETER ''Block height out of range'')
             else
               (case chain_at (chainActive st) height of
                  Inl e \<Rightarrow> Inl e
                | Inr pblockindex \<Rightarrow>
                    (case deref (memory st) pblockindex of
                       Inl e \<Rightarrow> Inl e
                     | Inr r \<Rightarrow> Inr (VHEX (phashBlock r))))))"

subsection \<open>Difficulty\<close>

text \<open>
  A \<open>double\<close> is the real number it stands for, or one of the two values that a
  division of unsigned values by zero gives. The quotient of two integers below
  \<open>2 ^ 24\<close> and its products with powers of 256 are taken as real numbers: the
  rounding of the quotient to 53 bits and the overflow and underflow of the scaling are
  not modelled. The quotient of a value other than zero by itself is 1.0 either way.
\<close>

datatype double = Finite real | PosInf | NaN

text \<open>\<open>(double)a / (double)b\<close> for unsigned \<open>a\<close> and \<open>b\<close>.\<close>

definition uint_quotient :: "uint32_t \<Rightarrow> uint32_t \<Rightarrow> double" where
  "uint_quotient a b =
     (if b = 0 then (if a = 0 then NaN else PosInf)
      else Finite (real (unat a) / real (unat b)))"

fun times_256 :: "double \<Rightarrow> double" where
  "times_256 (Finite a) = Finite (a * 256)"
| "times_256 PosInf = PosInf"
| "times_256 NaN = NaN"

fun over_256 :: "double \<Rightarrow> double" where
  "over_256 (Finite a) = Finite (a / 256)"
| "over_256 PosInf = PosInf"
| "over_256 NaN = NaN"

text \<open>
  \<^verbatim>\<open>
  while (nShift < nShiftAmount) { dDiff *= 256.0; nShift++; }
  while (nShift > nShiftAmount) { dDiff /= 256.0; nShift--; }
  \<close>
  Each loop returns the difficulty and the shift it ends with.
\<close>

function scale_up :: "double \<Rightarrow> int \<Rightarrow> int \<Rightarrow> double \<times> int" where
  "scale_up dDiff nShift nShiftAmount =
     (if nShift < nShiftAmount then scale_up (times_256 dDiff) (nShift + 1) nShiftAmount
      else (dDiff, nShift))"
  by pat_completeness auto
termination
  by (relation "measure (\<lambda>(dDiff, nShift, nShiftAmount). nat (nShiftAmount - nShift))") auto

function scale_down :: "double \<Rightarrow> int \<Rightarrow> int \<Rightarrow> double \<times> int" where
  "scale_down dDiff nShift nShiftAmount =
     (if nShift > nShiftAmount then scale_down (over_256 dDiff) (nShift - 1) nShiftAmount
      else (dDiff, nShift))"
  by pat_completeness auto
termination
  by (relation "measure (\<lambda>(dDiff, nShift, nShiftAmount). nat (nShift - nShiftAmount))") auto

text \<open>
  The part of \<open>GetDifficultyINTERNAL\<close> after \<open>bits\<close> and \<open>powLimit\<close> are known.
  \<^verbatim>\<open>
  int nShift = (bits >> 24) & 0xff;
  int nShiftAmount = (powLimit >> 24) & 0xff;
  double dDiff = (double)(powLimit & 0x00ffffff) / (double)(bits & 0x00ffffff);
  \<close>
\<close>

definition difficulty_of_bits :: "uint32_t \<Rightarrow> uint32_t \<Rightarrow> double" where
  "difficulty_of_bits powLimit bits =
     (let nShift = uint (drop_bit 24 bits AND 0xff);
          nShiftAmount = uint (drop_bit 24 powLimit AND 0xff);
          dDiff = uint_quotient (powLimit AND 0x00ffffff) (bits AND 0x00ffffff);
          (dDiff', nShift') = scale_up dDiff nShift nShiftAmount;
          (dDiff'', nShift'') = scale_down dDiff' nShift' nShiftAmount
      in dDiff'')"

definition difficulty_at ::
  "externals \<Rightarrow> node_state \<Rightarrow> ptr \<Rightarrow> bool \<Rightarrow> error + double" where
  "difficulty_at x st blockindex networkDifficulty =
     (if networkDifficulty
      then Inr (difficulty_of_bits (powLimit_compact x)
                  (GetNextWorkRequired x (memory st) blockindex))
      else
        (case deref (memory st) blockindex of
           Inl e \<Rightarrow> Inl e
         | Inr r \<Rightarrow> Inr (difficulty_of_bits (powLimit_compact x) (nBits r))))"

text \<open>
  \<^verbatim>\<open>
  if (blockindex == NULL)
  {
      if (chainActive.Tip() == NULL)
          return 1.0;
      else
          blockindex = chainActive.Tip();
  }
  \<close>
\<close>

definition GetDifficultyINTERNAL ::
  "externals \<Rightarrow> node_state \<Rightarrow> ptr \<Rightarrow> bool \<Rightarrow> error + double" where
  "GetDifficultyINTERNAL x st blockindex networkDifficulty =
     (if blockindex = NULL then
        (if Tip (chainActive st) = NULL then Inr (Finite 1.0)
         else difficulty_at x st (Tip (chainActive st)) networkDifficulty)
      else difficulty_at x st blockindex networkDifficulty)"


definition GetNetworkDifficulty :: "externals \<Rightarrow> node_state \<Rightarrow> ptr \<Rightarrow> error + double" where
  "GetNetworkDifficulty x st blockindex = GetDifficultyINTERNAL x st blockindex True"

text \<open>
  The RPC \<open>getdifficulty\<close> returns \<open>GetNetworkDifficulty()\<close>, whose argument defaults
  to the null pointer.
\<close>

definition getdifficulty ::
  "externals \<Rightarrow> node_state \<Rightarrow> UniValue list \<Rightarrow> bool \<Rightarrow> error + double" where
  "getdifficulty x st params fHelp =
     (if fHelp \<or> length params \<noteq> 0 then Inl (runtime_error ''getdifficulty'')
      else GetNetworkDifficulty x st NULL)"

subsection \<open>Confirmations\<close>




subsection \<open>The block tree of the store and its invariants\<close>

definition stored :: "node_state \<Rightarrow> ptr list" where
  "stored st = map snd (mapBlockIndex st)"

definition parent_of :: "(ptr \<rightharpoonup> CBlockIndex) \<Rightarrow> ptr \<Rightarrow> ptr" where
  "parent_of m p = (case m p of None \<Rightarrow> NULL | Some r \<Rightarrow> pprev r)"

text \<open>The leaves of the forest: the stored blocks that are no stored block's parent.\<close>

definition leaves :: "node_state \<Rightarrow> ptr list" where
  "leaves st =
     filter (\<lambda>p. list_all (\<lambda>q. parent_of (memory st) q \<noteq> p) (stored st)) (stored st)"

text \<open>
  What the reads of \<open>getchaintips\<close> before its output loop need: every stored pointer
  and the tip of the active chain point to an object, and so does every parent pointer
  of a stored block that is not null.
\<close>

definition objects_ok :: "node_state \<Rightarrow> bool" where
  "objects_ok st \<longleftrightarrow>
     list_all (\<lambda>p. is_object (memory st) p \<and>
                   (parent_of (memory st) p = NULL \<or> is_object (memory st) (parent_of (memory st) p)))
              (stored st)
     \<and> is_object (memory st) (Tip (chainActive st))"

text \<open>
  The invariants of the spec's data model. A stored block has a height that an \<open>int\<close>
  holds and that is not negative, and its parent, if it has one, is stored and one
  lower. The active chain is not empty, its blocks are stored, the block at index \<open>i\<close>
  has height \<open>i\<close>, and each block's parent is the block before it.
\<close>

fun chain_linked :: "(ptr \<rightharpoonup> CBlockIndex) \<Rightarrow> ptr list \<Rightarrow> bool" where
  "chain_linked m (p # q # c) \<longleftrightarrow> parent_of m q = p \<and> chain_linked m (q # c)"
| "chain_linked m c \<longleftrightarrow> True"

definition wf_state :: "node_state \<Rightarrow> bool" where
  "wf_state st \<longleftrightarrow>
     list_all (\<lambda>p. is_object (memory st) p
                 \<and> 0 \<le> height_of (memory st) p \<and> height_of (memory st) p < 2 ^ 31
                 \<and> (parent_of (memory st) p = NULL
                    \<or> (parent_of (memory st) p \<in> set (stored st)
                       \<and> height_of (memory st) p = height_of (memory st) (parent_of (memory st) p) + 1)))
              (stored st)
     \<and> chainActive st \<noteq> []
     \<and> list_all (\<lambda>p. p \<in> set (stored st)) (chainActive st)
     \<and> map (height_of (memory st)) (chainActive st) = map int [0..<length (chainActive st)]
     \<and> chain_linked (memory st) (chainActive st)"

subsection \<open>The classification as the spec words it\<close>

text \<open>
  The six rules in their order, the first being "tip equals ActiveChain.tip()", and
  the evaluation in which the first rule that matches wins.
\<close>

definition classification_rules ::
  "externals \<Rightarrow> node_state \<Rightarrow> (string \<times> (ptr \<Rightarrow> CBlockIndex \<Rightarrow> bool)) list" where
  "classification_rules x st =
     [(''active'', \<lambda>p r. p = Tip (chainActive st)),
      (''invalid'', \<lambda>p r. nStatus r AND BLOCK_FAILED_MASK x \<noteq> 0),
      (''headers-only'', \<lambda>p r. nChainTx r = 0),
      (''valid-fork'', \<lambda>p r. IsValid x r (BLOCK_VALID_SCRIPTS x)),
      (''valid-headers'', \<lambda>p r. IsValid x r (BLOCK_VALID_TREE x)),
      (''unknown'', \<lambda>p r. True)]"

fun first_match ::
  "(string \<times> (ptr \<Rightarrow> CBlockIndex \<Rightarrow> bool)) list \<Rightarrow> ptr \<Rightarrow> CBlockIndex \<Rightarrow> string option" where
  "first_match [] p r = None"
| "first_match ((name, rule) # rules) p r =
     (if rule p r then Some name else first_match rules p r)"

subsection \<open>The difficulty as the spec words it\<close>




subsection \<open>Example states\<close>

text \<open>
  The constants of chain.h as the upstream sources have them, and the compact target
  \<open>0x1d00ffff\<close> of the spec's scenario as the proof-of-work limit.
\<close>

definition example_externals :: externals where
  "example_externals =
     \<lparr>BLOCK_FAILED_MASK = 96, BLOCK_VALID_TREE = 2, BLOCK_VALID_SCRIPTS = 5,
      IsValid = (\<lambda>r upto. nStatus r AND 96 = 0 \<and> upto \<le> nStatus r AND 7),
      powLimit_compact = 0x1d00ffff,
      GetNextWorkRequired = (\<lambda>m p. 0x1d00ffff)\<rparr>"

text \<open>
  The scenario of the spec: a chain of three headers at heights 0, 1 and 2 (the objects
  at the addresses 1, 2 and 3) and a competing header at height 2 whose parent is the
  header at height 1 (the object at address 4).
\<close>

definition fork_memory :: "ptr \<rightharpoonup> CBlockIndex" where
  "fork_memory =
     [1 \<mapsto> \<lparr>phashBlock = 0xA0, pprev = NULL, nHeight = 0, nChainTx = 1, nStatus = 5,
            nBits = 0x1d00ffff\<rparr>,
      2 \<mapsto> \<lparr>phashBlock = 0xA1, pprev = 1, nHeight = 1, nChainTx = 2, nStatus = 5,
            nBits = 0x1d00ffff\<rparr>,
      3 \<mapsto> \<lparr>phashBlock = 0xA2, pprev = 2, nHeight = 2, nChainTx = 3, nStatus = 5,
            nBits = 0x1d00ffff\<rparr>,
      4 \<mapsto> \<lparr>phashBlock = 0xB2, pprev = 2, nHeight = 2, nChainTx = 3, nStatus = 5,
            nBits = 0x1d00ffff\<rparr>]"

definition fork_state :: node_state where
  "fork_state =
     \<lparr>memory = fork_memory,
      mapBlockIndex = [(0xA0, 1), (0xA1, 2), (0xA2, 3), (0xB2, 4)],
      chainActive = [1, 2, 3]\<rparr>"

text \<open>
  The same store while the active chain still ends at height 1: its tip, the object at
  address 2, has two children in the store and is not a leaf.
\<close>

definition behind_state :: node_state where
  "behind_state =
     \<lparr>memory = fork_memory,
      mapBlockIndex = [(0xA0, 1), (0xA1, 2), (0xA2, 3), (0xB2, 4)],
      chainActive = [1, 2]\<rparr>"

text \<open>
  A store with a second tree: beside the chain of the three headers, a header at
  height 0 with no parent (the object at address 5) that is not on the active chain.
\<close>

definition forest_memory :: "ptr \<rightharpoonup> CBlockIndex" where
  "forest_memory =
     fork_memory(5 \<mapsto> \<lparr>phashBlock = 0xC0, pprev = NULL, nHeight = 0, nChainTx = 1,
                         nStatus = 5, nBits = 0x1d00ffff\<rparr>)"

definition forest_state :: node_state where
  "forest_state =
     \<lparr>memory = forest_memory,
      mapBlockIndex = [(0xA0, 1), (0xA1, 2), (0xA2, 3), (0xC0, 5)],
      chainActive = [1, 2, 3]\<rparr>"

text \<open>
  A chain of height 3: the three headers and a fourth at height 3 (the object at
  address 6).
\<close>

definition long_memory :: "ptr \<rightharpoonup> CBlockIndex" where
  "long_memory =
     fork_memory(6 \<mapsto> \<lparr>phashBlock = 0xA3, pprev = 3, nHeight = 3, nChainTx = 4,
                       nStatus = 5, nBits = 0x1c00ffff\<rparr>)"

definition long_state :: node_state where
  "long_state =
     \<lparr>memory = long_memory,
      mapBlockIndex = [(0xA0, 1), (0xA1, 2), (0xA2, 3), (0xB2, 4), (0xA3, 6)],
      chainActive = [1, 2, 3, 6]\<rparr>"

text \<open>A state before any block is known: no object, an empty store, an empty chain.\<close>

definition empty_state :: node_state where
  "empty_state = \<lparr>memory = Map.empty, mapBlockIndex = [], chainActive = []\<rparr>"

text \<open>The object of a block whose loop body returns one.\<close>

definition object_of :: "externals \<Rightarrow> node_state \<Rightarrow> ptr \<Rightarrow> json_object" where
  "object_of x st block = (case tip_object x st block of Some (Inr obj) \<Rightarrow> obj | _ \<Rightarrow> [])"

definition is_active :: "json_object \<Rightarrow> bool" where
  "is_active obj \<longleftrightarrow> map_of obj ''status'' = Some (VSTR ''active'')"

section \<open>Properties\<close>

subsection \<open>Reading objects and comparing them\<close>

lemma deref_object:
  "is_object m p \<Longrightarrow> deref m p = Inr (the (m p))"
  by (auto simp: is_object_def deref_def split: option.splits)

lemma deref_Inr_iff:
  "deref m p = Inr r \<longleftrightarrow> p \<noteq> NULL \<and> m p = Some r"
  by (auto simp: deref_def split: option.splits)

lemma Compare_object:
  "is_object m a \<Longrightarrow> is_object m b \<Longrightarrow>
   CompareBlocksByHeight m a b =
     Inr (height_of m a > height_of m b \<or> (height_of m a = height_of m b \<and> a < b))"
  by (auto simp: CompareBlocksByHeight_def deref_object height_of_def is_object_def
           split: option.splits)

lemma before_iff:
  "is_object m a \<Longrightarrow> is_object m b \<Longrightarrow>
   before m a b \<longleftrightarrow>
     height_of m a > height_of m b \<or> (height_of m a = height_of m b \<and> a < b)"
  by (simp add: before_def Compare_object)

text \<open>
  Claim C6. On block index objects the comparator is a strict total order: it is
  irreflexive and transitive, any two distinct objects are ordered one way and not the
  other, the higher of two objects of different height comes first, and two distinct
  objects of the same height are never equivalent: exactly one of \<open>cmp(a,b)\<close>,
  \<open>cmp(b,a)\<close> holds, decided by the addresses.
\<close>

theorem CompareBlocksByHeight_strict_total_order:
  assumes "is_object m a" and "is_object m b" and "is_object m c"
  shows "CompareBlocksByHeight m a a = Inr False
       \<and> (CompareBlocksByHeight m a b = Inr True \<and> CompareBlocksByHeight m b c = Inr True
            \<longrightarrow> CompareBlocksByHeight m a c = Inr True)
       \<and> (a \<noteq> b \<longrightarrow>
            (CompareBlocksByHeight m a b = Inr True \<and> CompareBlocksByHeight m b a = Inr False)
          \<or> (CompareBlocksByHeight m a b = Inr False \<and> CompareBlocksByHeight m b a = Inr True))
       \<and> (height_of m a > height_of m b \<longrightarrow> CompareBlocksByHeight m a b = Inr True)
       \<and> (a \<noteq> b \<and> height_of m a = height_of m b \<longrightarrow>
            CompareBlocksByHeight m a b = Inr (a < b) \<and>
            CompareBlocksByHeight m b a = Inr (b < a) \<and>
            (a < b) \<noteq> (b < a))"
  using assms by (auto simp: Compare_object)

theorem CompareBlocksByHeight_strict_total_order_witness:
  "is_object fork_memory 3 \<and> is_object fork_memory 4 \<and> is_object fork_memory 2
   \<and> CompareBlocksByHeight fork_memory 3 3 = Inr False
   \<and> CompareBlocksByHeight fork_memory 3 4 = Inr True
   \<and> CompareBlocksByHeight fork_memory 4 3 = Inr False
   \<and> CompareBlocksByHeight fork_memory 4 2 = Inr True
   \<and> CompareBlocksByHeight fork_memory 3 2 = Inr True"
  using CompareBlocksByHeight_strict_total_order [of fork_memory 3 4 2]
  by (simp add: is_object_def height_of_def fork_memory_def NULL_def
      CompareBlocksByHeight_def deref_def)

subsection \<open>The tip set\<close>

lemma before_trans:
  "is_object m a \<Longrightarrow> is_object m b \<Longrightarrow> is_object m c \<Longrightarrow>
   before m a b \<Longrightarrow> before m b c \<Longrightarrow> before m a c"
  by (auto simp: before_iff)

lemma set_insert_ok:
  assumes "is_object m x" and "\<forall>y\<in>set ys. is_object m y" and "sorted_wrt (before m) ys"
  shows "\<exists>zs. set_insert m x ys = Inr zs \<and> set zs = insert x (set ys)
              \<and> sorted_wrt (before m) zs"
  using assms
proof (induction ys)
  case Nil
  then show ?case by simp
next
  case (Cons y ys)
  then have oy: "is_object m y" and oys: "\<forall>z\<in>set ys. is_object m z"
    and s: "sorted_wrt (before m) ys" and yb: "\<forall>z\<in>set ys. before m y z"
    by simp_all
  from Cons.IH [OF Cons.prems(1) oys s] obtain zs where
    zs: "set_insert m x ys = Inr zs" "set zs = insert x (set ys)" "sorted_wrt (before m) zs"
    by blast
  show ?case
  proof (cases "before m x y")
    case True
    then have "set_insert m x (y # ys) = Inr (x # y # ys)"
      by (simp add: before_def)
    moreover have "\<forall>z\<in>set ys. before m x z"
      using True yb oy oys Cons.prems(1) before_trans by blast
    ultimately show ?thesis using True Cons.prems(3) by auto
  next
    case False
    then have nx: "CompareBlocksByHeight m x y = Inr False"
      using Cons.prems(1) oy by (simp add: before_def Compare_object)
    show ?thesis
    proof (cases "before m y x")
      case True
      then have "set_insert m x (y # ys) = Inr (y # zs)"
        using nx zs(1) by (simp add: before_def)
      moreover have "\<forall>z\<in>set zs. before m y z"
        using zs(2) True yb by auto
      ultimately show ?thesis using zs(2,3) by auto
    next
      case False
      then have "CompareBlocksByHeight m y x = Inr False"
        using Cons.prems(1) oy by (simp add: before_def Compare_object)
      then have "set_insert m x (y # ys) = Inr (y # ys)"
        using nx by simp
      moreover have "x = y"
        using False \<open>\<not> before m x y\<close> Cons.prems(1) oy by (auto simp: before_iff)
      ultimately show ?thesis using Cons.prems(3) by auto
    qed
  qed
qed

lemma set_erase_ok:
  assumes "is_object m x" and "\<forall>y\<in>set ys. is_object m y" and "sorted_wrt (before m) ys"
  shows "\<exists>zs. set_erase m x ys = Inr zs \<and> set zs = set ys - {x}
              \<and> sorted_wrt (before m) zs"
  using assms
proof (induction ys)
  case Nil
  then show ?case by simp
next
  case (Cons y ys)
  then have oy: "is_object m y" and oys: "\<forall>z\<in>set ys. is_object m z"
    and s: "sorted_wrt (before m) ys" and yb: "\<forall>z\<in>set ys. before m y z"
    by simp_all
  from Cons.IH [OF Cons.prems(1) oys s] obtain zs where
    zs: "set_erase m x ys = Inr zs" "set zs = set ys - {x}" "sorted_wrt (before m) zs"
    by blast
  have irrefl: "\<And>a. is_object m a \<Longrightarrow> \<not> before m a a"
    by (simp add: before_iff)
  show ?case
  proof (cases "before m x y")
    case True
    then have "set_erase m x (y # ys) = Inr (y # ys)"
      by (simp add: before_def)
    moreover have "\<forall>z\<in>set ys. before m x z"
      using True yb oy oys Cons.prems(1) before_trans by blast
    then have "x \<notin> set (y # ys)"
      using True irrefl [OF Cons.prems(1)] by auto
    ultimately show ?thesis using Cons.prems(3) by auto
  next
    case False
    then have nx: "CompareBlocksByHeight m x y = Inr False"
      using Cons.prems(1) oy by (simp add: before_def Compare_object)
    show ?thesis
    proof (cases "before m y x")
      case True
      then have "set_erase m x (y # ys) = Inr (y # zs)"
        using nx zs(1) by (simp add: before_def)
      moreover have "\<forall>z\<in>set zs. before m y z"
        using zs(2) yb by auto
      moreover have "x \<noteq> y"
        using True irrefl [OF oy] by auto
      ultimately show ?thesis using zs(2,3) by auto
    next
      case False
      then have "CompareBlocksByHeight m y x = Inr False"
        using Cons.prems(1) oy by (simp add: before_def Compare_object)
      then have "set_erase m x (y # ys) = Inr ys"
        using nx by simp
      moreover have "x = y"
        using False \<open>\<not> before m x y\<close> Cons.prems(1) oy by (auto simp: before_iff)
      moreover have "y \<notin> set ys"
        using yb irrefl [OF oy] by auto
      ultimately show ?thesis using s by auto
    qed
  qed
qed

lemma insert_blocks_ok:
  assumes "\<forall>p\<in>snd ` set items. is_object m p" and "\<forall>y\<in>set acc. is_object m y"
    and "sorted_wrt (before m) acc"
  shows "\<exists>zs. insert_blocks m items acc = Inr zs \<and> set zs = set acc \<union> snd ` set items
              \<and> sorted_wrt (before m) zs"
  using assms
proof (induction items arbitrary: acc)
  case Nil
  then show ?case by simp
next
  case (Cons item items)
  from Cons.prems have "is_object m (snd item)" by simp
  from set_insert_ok [OF this Cons.prems(2,3)] obtain ys where
    ys: "set_insert m (snd item) acc = Inr ys" "set ys = insert (snd item) (set acc)"
        "sorted_wrt (before m) ys"
    by blast
  have "\<forall>y\<in>set ys. is_object m y"
    using ys(2) Cons.prems(1,2) by auto
  from Cons.IH [OF _ this ys(3)] Cons.prems(1) obtain zs where
    "insert_blocks m items ys = Inr zs" "set zs = set ys \<union> snd ` set items"
    "sorted_wrt (before m) zs"
    by auto
  then show ?case using ys(1,2) by auto
qed

lemma erase_parents_ok:
  assumes "\<forall>p\<in>snd ` set items. is_object m p \<and>
              (parent_of m p = NULL \<or> is_object m (parent_of m p))"
    and "\<forall>y\<in>set acc. is_object m y" and "sorted_wrt (before m) acc"
  shows "\<exists>zs. erase_parents m items acc = Inr zs
              \<and> set zs = set acc - parent_of m ` snd ` set items
              \<and> sorted_wrt (before m) zs"
  using assms
proof (induction items arbitrary: acc)
  case Nil
  then show ?case by simp
next
  case (Cons item items)
  let ?p = "snd item"
  from Cons.prems(1) have op: "is_object m ?p"
    and pp: "parent_of m ?p = NULL \<or> is_object m (parent_of m ?p)"
    by simp_all
  from op obtain r where r: "m ?p = Some r" "?p \<noteq> NULL"
    by (auto simp: is_object_def)
  then have d: "deref m ?p = Inr r" and par: "parent_of m ?p = pprev r"
    by (simp_all add: deref_def parent_of_def)
  have rest: "\<forall>p\<in>snd ` set items. is_object m p \<and>
              (parent_of m p = NULL \<or> is_object m (parent_of m p))"
    using Cons.prems(1) by simp
  have nonull: "NULL \<notin> set acc"
    using Cons.prems(2) by (auto simp: is_object_def)
  show ?case
  proof (cases "pprev r = NULL")
    case True
    from Cons.IH [OF rest Cons.prems(2,3)] obtain zs where
      "erase_parents m items acc = Inr zs"
      "set zs = set acc - parent_of m ` snd ` set items" "sorted_wrt (before m) zs"
      by blast
    then show ?thesis using True d r(2) par nonull by auto
  next
    case False
    then have "is_object m (pprev r)" using pp par by simp
    from set_erase_ok [OF this Cons.prems(2,3)] obtain ys where
      ys: "set_erase m (pprev r) acc = Inr ys" "set ys = set acc - {pprev r}"
          "sorted_wrt (before m) ys"
      by blast
    have "\<forall>y\<in>set ys. is_object m y"
      using ys(2) Cons.prems(2) by auto
    from Cons.IH [OF rest this ys(3)] obtain zs where
      "erase_parents m items ys = Inr zs"
      "set zs = set ys - parent_of m ` snd ` set items" "sorted_wrt (before m) zs"
      by blast
    then show ?thesis using False d r(2) par ys(1,2) by auto
  qed
qed

lemma set_leaves:
  "set (leaves st) = set (stored st) - parent_of (memory st) ` set (stored st)"
  by (auto simp: leaves_def list_all_iff)

lemma sorted_before_distinct:
  "\<forall>y\<in>set ys. is_object m y \<Longrightarrow> sorted_wrt (before m) ys \<Longrightarrow> distinct ys"
  by (induction ys) (auto simp: before_iff)

lemma candidate_tips_ok:
  assumes "objects_ok st"
  shows "\<exists>cands. candidate_tips st = Inr cands \<and> set cands = set (leaves st)
           \<and> sorted_wrt (before (memory st)) cands
           \<and> (\<forall>b\<in>set cands. is_object (memory st) b)"
proof -
  let ?m = "memory st"
  from assms have ob: "\<forall>p\<in>snd ` set (mapBlockIndex st). is_object ?m p \<and>
      (parent_of ?m p = NULL \<or> is_object ?m (parent_of ?m p))"
    by (auto simp: objects_ok_def list_all_iff stored_def)
  from insert_blocks_ok [of "mapBlockIndex st" ?m "[]"] ob obtain xs where
    xs: "insert_blocks ?m (mapBlockIndex st) [] = Inr xs"
        "set xs = snd ` set (mapBlockIndex st)" "sorted_wrt (before ?m) xs"
    by auto
  have oxs: "\<forall>y\<in>set xs. is_object ?m y" using xs(2) ob by auto
  from erase_parents_ok [OF ob oxs xs(3)] obtain ys where
    ys: "erase_parents ?m (mapBlockIndex st) xs = Inr ys"
        "set ys = set xs - parent_of ?m ` snd ` set (mapBlockIndex st)"
        "sorted_wrt (before ?m) ys"
    by blast
  have oys: "\<forall>y\<in>set ys. is_object ?m y" using ys(2) oxs by auto
  have "candidate_tips st = Inr ys"
    by (simp add: candidate_tips_def xs(1) ys(1))
  moreover have "set ys = set (leaves st)"
    using ys(2) xs(2) by (auto simp: set_leaves stored_def)
  ultimately show ?thesis using ys(3) oys by blast
qed

lemma chain_tips_ok:
  assumes "objects_ok st"
  shows "\<exists>cands tips. candidate_tips st = Inr cands \<and> set cands = set (leaves st)
           \<and> chain_tips st = Inr tips
           \<and> set tips = set (leaves st) \<union> {Tip (chainActive st)}
           \<and> sorted_wrt (before (memory st)) tips \<and> distinct tips
           \<and> (\<forall>b\<in>set tips. is_object (memory st) b)"
proof -
  let ?m = "memory st"
  from assms have ot: "is_object ?m (Tip (chainActive st))"
    by (simp add: objects_ok_def)
  from candidate_tips_ok [OF assms] obtain ys where
    ys: "candidate_tips st = Inr ys" "set ys = set (leaves st)"
        "sorted_wrt (before ?m) ys" "\<forall>y\<in>set ys. is_object ?m y"
    by blast
  from set_insert_ok [OF ot ys(4,3)] obtain zs where
    zs: "set_insert ?m (Tip (chainActive st)) ys = Inr zs"
        "set zs = insert (Tip (chainActive st)) (set ys)" "sorted_wrt (before ?m) zs"
    by blast
  have ozs: "\<forall>y\<in>set zs. is_object ?m y" using zs(2) ys(4) ot by auto
  have "chain_tips st = Inr zs"
    by (simp add: chain_tips_def ys(1) zs(1))
  moreover have "set zs = set (leaves st) \<union> {Tip (chainActive st)}"
    using zs(2) ys(2) by auto
  ultimately show ?thesis
    using ys(1,2) zs(3) ozs sorted_before_distinct [OF ozs zs(3)] by blast
qed

text \<open>
  Claim C3. On a store whose pointers point to objects, the set after the two loops
  over \<open>mapBlockIndex\<close> holds exactly the leaves of the forest, the stored blocks that
  are no stored block's parent, and the tip set after the insertion of the active tip
  holds exactly the leaves and \<open>chainActive.Tip()\<close>, each once.
\<close>

theorem chain_tips_leaves_and_tip:
  assumes "objects_ok st"
  shows "\<exists>cands tips.
           candidate_tips st = Inr cands \<and> set cands = set (leaves st)
         \<and> set_insert (memory st) (Tip (chainActive st)) cands = Inr tips
         \<and> chain_tips st = Inr tips
         \<and> set tips = set (leaves st) \<union> {Tip (chainActive st)}
         \<and> distinct tips"
proof -
  from chain_tips_ok [OF assms] obtain cands tips where
    *: "candidate_tips st = Inr cands" "set cands = set (leaves st)"
       "chain_tips st = Inr tips" "set tips = set (leaves st) \<union> {Tip (chainActive st)}"
       "distinct tips"
    by blast
  from *(1,3) have "set_insert (memory st) (Tip (chainActive st)) cands = Inr tips"
    by (simp add: chain_tips_def)
  with * show ?thesis by blast
qed

theorem chain_tips_leaves_and_tip_witness:
  "objects_ok behind_state
   \<and> candidate_tips behind_state = Inr [3, 4]
   \<and> set (leaves behind_state) = {3, 4}
   \<and> Tip (chainActive behind_state) = 2
   \<and> chain_tips behind_state = Inr [3, 4, 2]"
proof -
  have ok: "objects_ok behind_state"
    by (simp add: objects_ok_def behind_state_def fork_memory_def stored_def is_object_def
        parent_of_def Tip_def NULL_def)
  have c: "candidate_tips behind_state = Inr [3, 4]"
    by (simp add: candidate_tips_def behind_state_def fork_memory_def
        CompareBlocksByHeight_def deref_def NULL_def)
  have t: "Tip (chainActive behind_state) = 2"
    by (simp add: Tip_def behind_state_def)
  from chain_tips_leaves_and_tip [OF ok] obtain cands tips where
    *: "candidate_tips behind_state = Inr cands" "set cands = set (leaves behind_state)"
       "set_insert (memory behind_state) (Tip (chainActive behind_state)) cands = Inr tips"
       "chain_tips behind_state = Inr tips"
    by blast
  from *(1) c have "cands = [3, 4]" by simp
  with *(2) have l: "set (leaves behind_state) = {3, 4}" by simp
  have "set_insert (memory behind_state) 2 [3, 4] = Inr [3, 4, 2]"
    by (simp add: behind_state_def fork_memory_def CompareBlocksByHeight_def deref_def
        NULL_def)
  with *(3,4) t \<open>cands = [3, 4]\<close> have "chain_tips behind_state = Inr [3, 4, 2]"
    by simp
  with ok c l t show ?thesis by simp
qed

subsection \<open>Well-formed states\<close>

lemma chain_linked_nth:
  "chain_linked m c \<Longrightarrow> Suc i < length c \<Longrightarrow> parent_of m (c ! Suc i) = c ! i"
proof (induction m c arbitrary: i rule: chain_linked.induct)
  case (1 m p q c)
  then show ?case by (cases i) auto
qed auto

lemma wf_stored:
  assumes "wf_state st" and "p \<in> set (stored st)"
  shows "is_object (memory st) p"
    and "0 \<le> height_of (memory st) p" and "height_of (memory st) p < 2 ^ 31"
    and "parent_of (memory st) p = NULL \<or>
         (parent_of (memory st) p \<in> set (stored st) \<and>
          height_of (memory st) p = height_of (memory st) (parent_of (memory st) p) + 1)"
  using assms by (auto simp: wf_state_def list_all_iff)

lemma wf_chain:
  assumes "wf_state st"
  shows "chainActive st \<noteq> []"
    and "set (chainActive st) \<subseteq> set (stored st)"
    and "i < length (chainActive st) \<Longrightarrow> height_of (memory st) (chainActive st ! i) = int i"
    and "Suc i < length (chainActive st) \<Longrightarrow>
         parent_of (memory st) (chainActive st ! Suc i) = chainActive st ! i"
proof -
  from assms have h: "map (height_of (memory st)) (chainActive st)
      = map int [0..<length (chainActive st)]"
    and l: "chain_linked (memory st) (chainActive st)"
    by (simp_all add: wf_state_def)
  show "chainActive st \<noteq> []" using assms by (simp add: wf_state_def)
  show "set (chainActive st) \<subseteq> set (stored st)"
    using assms by (auto simp: wf_state_def list_all_iff)
  show "height_of (memory st) (chainActive st ! i) = int i" if "i < length (chainActive st)"
  proof -
    have "map (height_of (memory st)) (chainActive st) ! i = map int [0..<length (chainActive st)] ! i"
      using h by simp
    then show ?thesis using that by simp
  qed
  show "parent_of (memory st) (chainActive st ! Suc i) = chainActive st ! i"
    if "Suc i < length (chainActive st)"
    using chain_linked_nth [OF l that] .
qed

lemma Contains_object:
  "is_object m p \<Longrightarrow>
   Contains m c p =
     Inr (0 \<le> height_of m p \<and> height_of m p \<le> Height c \<and> c ! nat (height_of m p) = p)"
  by (auto simp: Contains_def deref_object chain_at_def height_of_def is_object_def
           split: option.splits)

lemma Contains_wf:
  assumes "wf_state st" and "p \<in> set (stored st)"
  shows "Contains (memory st) (chainActive st) p = Inr (p \<in> set (chainActive st))"
proof -
  let ?m = "memory st" and ?c = "chainActive st"
  have o: "is_object ?m p" using wf_stored(1) [OF assms] .
  have "(0 \<le> height_of ?m p \<and> height_of ?m p \<le> Height ?c \<and> ?c ! nat (height_of ?m p) = p)
        \<longleftrightarrow> p \<in> set ?c"
  proof
    assume a: "0 \<le> height_of ?m p \<and> height_of ?m p \<le> Height ?c \<and> ?c ! nat (height_of ?m p) = p"
    then have "nat (height_of ?m p) < length ?c" by (auto simp: Height_def)
    then have "?c ! nat (height_of ?m p) \<in> set ?c" by simp
    with a show "p \<in> set ?c" by simp
  next
    assume "p \<in> set ?c"
    then obtain i where i: "i < length ?c" "?c ! i = p"
      by (auto simp: in_set_conv_nth)
    with wf_chain(3) [OF assms(1) i(1)] have "height_of ?m p = int i" by simp
    with i show "0 \<le> height_of ?m p \<and> height_of ?m p \<le> Height ?c \<and> ?c ! nat (height_of ?m p) = p"
      by (simp add: Height_def)
  qed
  with Contains_object [OF o] show ?thesis by simp
qed

lemma Tip_in_chain: "c \<noteq> [] \<Longrightarrow> Tip c \<in> set c"
  by (simp add: Tip_def)

lemma FindFork_wf:
  assumes "wf_state st" and "p \<in> set (stored st)"
  shows "\<exists>f. FindFork (memory st) (chainActive st) p = Some (Inr f)
           \<and> (f = NULL \<and> p \<notin> set (chainActive st)
              \<or> f \<in> set (stored st) \<and> f \<in> set (chainActive st)
                \<and> height_of (memory st) f \<le> height_of (memory st) p
                \<and> (p \<in> set (chainActive st) \<longrightarrow> f = p))"
  using assms(2)
proof (induction "nat (height_of (memory st) p)" arbitrary: p rule: less_induct)
  case less
  let ?m = "memory st" and ?c = "chainActive st"
  note st = wf_stored [OF assms(1) less.prems]
  from st(1) obtain r where r: "?m p = Some r" "p \<noteq> NULL"
    by (auto simp: is_object_def)
  then have d: "deref ?m p = Inr r" and par: "parent_of ?m p = pprev r"
    by (simp_all add: deref_def parent_of_def)
  note C = Contains_wf [OF assms(1) less.prems]
  show ?case
  proof (cases "p \<in> set ?c")
    case True
    then have "FindFork ?m ?c p = Some (Inr p)"
      by (subst FindFork.simps) (simp add: d C)
    then show ?thesis using True less.prems by simp
  next
    case False
    show ?thesis
    proof (cases "pprev r = NULL")
      case True
      then have "FindFork ?m ?c p = Some (Inr NULL)"
        using False by (subst FindFork.simps) (simp add: d C)
      then show ?thesis using False by simp
    next
      case np: False
      with st(4) par have ps: "pprev r \<in> set (stored st)"
        and ph: "height_of ?m p = height_of ?m (pprev r) + 1"
        by simp_all
      have "0 \<le> height_of ?m (pprev r)"
        using wf_stored(2) [OF assms(1) ps] .
      with ph have "nat (height_of ?m (pprev r)) < nat (height_of ?m p)" by simp
      from less.hyps [OF this ps] obtain f where
        f: "FindFork ?m ?c (pprev r) = Some (Inr f)"
           "f = NULL \<and> pprev r \<notin> set ?c
            \<or> f \<in> set (stored st) \<and> f \<in> set ?c \<and> height_of ?m f \<le> height_of ?m (pprev r)
              \<and> (pprev r \<in> set ?c \<longrightarrow> f = pprev r)"
        by blast
      have "FindFork ?m ?c p = Some (Inr f)"
        using False np f(1) by (subst FindFork.simps) (simp add: d C)
      then show ?thesis using f(2) False ph by auto
    qed
  qed
qed

lemma leaf_on_chain_is_Tip:
  assumes "wf_state st" and "b \<in> set (leaves st)" and "b \<in> set (chainActive st)"
  shows "b = Tip (chainActive st)"
proof (rule ccontr)
  let ?m = "memory st" and ?c = "chainActive st"
  assume n: "b \<noteq> Tip ?c"
  from assms(3) obtain i where i: "i < length ?c" "?c ! i = b"
    by (auto simp: in_set_conv_nth)
  have ne: "?c \<noteq> []" using wf_chain(1) [OF assms(1)] .
  with n i have "i \<noteq> length ?c - 1"
    by (auto simp: Tip_def last_conv_nth)
  with i(1) have s: "Suc i < length ?c" by simp
  then have "parent_of ?m (?c ! Suc i) = b"
    using wf_chain(4) [OF assms(1) s] i(2) by simp
  moreover have "?c ! Suc i \<in> set (stored st)"
    using wf_chain(2) [OF assms(1)] s by (meson nth_mem subsetD)
  ultimately have "b \<in> parent_of ?m ` set (stored st)" by blast
  with assms(2) show False by (simp add: set_leaves)
qed

lemma wf_objects_ok: "wf_state st \<Longrightarrow> objects_ok st"
proof -
  assume w: "wf_state st"
  have "Tip (chainActive st) \<in> set (stored st)"
    using wf_chain(1,2) [OF w] Tip_in_chain by blast
  then have "is_object (memory st) (Tip (chainActive st))"
    using wf_stored(1) [OF w] by blast
  moreover have "list_all (\<lambda>p. is_object (memory st) p \<and>
                   (parent_of (memory st) p = NULL \<or> is_object (memory st) (parent_of (memory st) p)))
              (stored st)"
    unfolding list_all_iff
  proof
    fix p assume p: "p \<in> set (stored st)"
    from wf_stored(4) [OF w p] wf_stored(1) [OF w]
    have "parent_of (memory st) p = NULL \<or> is_object (memory st) (parent_of (memory st) p)"
      by blast
    with wf_stored(1) [OF w p]
    show "is_object (memory st) p \<and>
          (parent_of (memory st) p = NULL \<or> is_object (memory st) (parent_of (memory st) p))"
      by simp
  qed
  ultimately show ?thesis by (simp add: objects_ok_def)
qed

lemma leaves_stored: "set (leaves st) \<subseteq> set (stored st)"
  by (auto simp: leaves_def)

text \<open>The tips of a well-formed state.\<close>

lemma wf_tips:
  assumes "wf_state st"
  shows "\<exists>tips. chain_tips st = Inr tips
           \<and> set tips = set (leaves st) \<union> {Tip (chainActive st)}
           \<and> distinct tips \<and> tips \<noteq> []
           \<and> set tips \<subseteq> set (stored st)
           \<and> (\<forall>b\<in>set tips. b \<in> set (chainActive st) \<longleftrightarrow> b = Tip (chainActive st))"
proof -
  from chain_tips_ok [OF wf_objects_ok [OF assms]] obtain tips where
    t: "chain_tips st = Inr tips" "set tips = set (leaves st) \<union> {Tip (chainActive st)}"
       "distinct tips"
    by blast
  have tc: "Tip (chainActive st) \<in> set (chainActive st)"
    using wf_chain(1) [OF assms] Tip_in_chain by blast
  then have ts: "Tip (chainActive st) \<in> set (stored st)"
    using wf_chain(2) [OF assms] by blast
  have "set tips \<subseteq> set (stored st)"
    using t(2) ts leaves_stored by auto
  moreover have "\<forall>b\<in>set tips. b \<in> set (chainActive st) \<longleftrightarrow> b = Tip (chainActive st)"
    using t(2) tc leaf_on_chain_is_Tip [OF assms] by auto
  moreover have "tips \<noteq> []" using t(2) by auto
  ultimately show ?thesis using t by blast
qed

subsection \<open>The output of getchaintips\<close>

lemma int32_id: "- (2 ^ 31) \<le> k \<Longrightarrow> k < 2 ^ 31 \<Longrightarrow> int32 k = k"
  by (simp add: int32_def signed_take_bit_int_eq_self)

lemma tip_status_rules:
  assumes "memory st b = Some r" and "b \<noteq> NULL"
    and "Contains (memory st) (chainActive st) b = Inr (b = Tip (chainActive st))"
  shows "\<exists>s. first_match (classification_rules x st) b r = Some s
           \<and> tip_status x st b = Inr s
           \<and> (s = ''active'' \<longleftrightarrow> b = Tip (chainActive st))"
  using assms
  by (simp add: tip_status_def classification_rules_def deref_def)

lemma tip_object_wf:
  assumes "wf_state st" and "b \<in> set (stored st)"
    and "b \<in> set (chainActive st) \<longleftrightarrow> b = Tip (chainActive st)"
  shows "\<exists>f r s.
           FindFork (memory st) (chainActive st) b = Some (Inr f)
         \<and> memory st b = Some r
         \<and> (f = NULL \<and> b \<noteq> Tip (chainActive st)
            \<or> f \<noteq> NULL \<and> height_of (memory st) f \<le> height_of (memory st) b
              \<and> (b = Tip (chainActive st) \<longrightarrow> f = b))
         \<and> first_match (classification_rules x st) b r = Some s
         \<and> tip_status x st b = Inr s
         \<and> (s = ''active'' \<longleftrightarrow> b = Tip (chainActive st))
         \<and> tip_object x st b =
             Some (Inr (if f \<noteq> NULL
                        then [(''height'', VNUM (nHeight r)),
                              (''hash'', VHEX (phashBlock r)),
                              (''branchlen'', VNUM (height_of (memory st) b - height_of (memory st) f)),
                              (''status'', VSTR s)]
                        else [(''height'', VNUM (nHeight r)),
                              (''hash'', VHEX (phashBlock r))]))"
proof -
  let ?m = "memory st" and ?c = "chainActive st"
  note sb = wf_stored [OF assms(1,2)]
  from sb(1) obtain r where r: "?m b = Some r" "b \<noteq> NULL"
    by (auto simp: is_object_def)
  then have d: "deref ?m b = Inr r" and hb: "height_of ?m b = nHeight r"
    by (simp_all add: deref_def height_of_def)
  have C: "Contains ?m ?c b = Inr (b = Tip ?c)"
    using Contains_wf [OF assms(1,2)] assms(3) by simp
  from tip_status_rules [OF r C] obtain s where
    s: "first_match (classification_rules x st) b r = Some s" "tip_status x st b = Inr s"
       "s = ''active'' \<longleftrightarrow> b = Tip ?c"
    by blast
  from FindFork_wf [OF assms(1,2)] obtain f where
    f: "FindFork ?m ?c b = Some (Inr f)"
       "f = NULL \<and> b \<notin> set ?c
        \<or> f \<in> set (stored st) \<and> f \<in> set ?c \<and> height_of ?m f \<le> height_of ?m b
          \<and> (b \<in> set ?c \<longrightarrow> f = b)"
    by blast
  show ?thesis
  proof (cases "f = NULL")
    case True
    then have "tip_object x st b =
        Some (Inr [(''height'', VNUM (nHeight r)), (''hash'', VHEX (phashBlock r))])"
      by (simp add: tip_object_def d f(1))
    moreover have "b \<noteq> Tip ?c"
      using True f(2) assms(3) sb(1) by (auto simp: is_object_def)
    ultimately show ?thesis using True r s f(1) by auto
  next
    case False
    with f(2) have fs: "f \<in> set (stored st)" and fh: "height_of ?m f \<le> height_of ?m b"
      and ft: "b = Tip ?c \<longrightarrow> f = b"
      using assms(3) by auto
    note sf = wf_stored [OF assms(1) fs]
    from sf(1) obtain rf where rf: "?m f = Some rf"
      by (auto simp: is_object_def)
    then have df: "deref ?m f = Inr rf" and hf: "height_of ?m f = nHeight rf"
      using False by (simp_all add: deref_def height_of_def)
    have "int32 (nHeight r - nHeight rf) = height_of ?m b - height_of ?m f"
      using sb(2,3) sf(2,3) fh hb hf by (simp add: int32_id)
    then have "tip_object x st b =
        Some (Inr [(''height'', VNUM (nHeight r)), (''hash'', VHEX (phashBlock r)),
                   (''branchlen'', VNUM (height_of ?m b - height_of ?m f)),
                   (''status'', VSTR s)])"
      using False by (simp add: tip_object_def d f(1) df s(2))
    then show ?thesis using False r s f(1) fh ft by auto
  qed
qed

lemma inner_loop_ok:
  assumes "\<forall>b\<in>set bs. \<exists>obj. tip_object x st b = Some (Inr obj)"
  shows "inner_loop x st bs res = Some (Inr (res @ map (object_of x st) bs))"
  using assms
proof (induction bs arbitrary: res)
  case Nil
  then show ?case by simp
next
  case (Cons b bs)
  then obtain obj where obj: "tip_object x st b = Some (Inr obj)" by auto
  then have "object_of x st b = obj" by (simp add: object_of_def)
  with Cons obj show ?case by simp
qed

lemma outer_loop_ok:
  assumes "\<forall>b\<in>set tips. \<exists>obj. tip_object x st b = Some (Inr obj)"
  shows "outer_loop x st tips bs res =
           Some (Inr (res @ concat (map (\<lambda>b. map (object_of x st) tips) bs)))"
proof (induction bs arbitrary: res)
  case Nil
  then show ?case by simp
next
  case (Cons b bs)
  then show ?case by (simp add: inner_loop_ok [OF assms])
qed

lemma getchaintips_wf:
  assumes "wf_state st"
  shows "\<exists>tips. chain_tips st = Inr tips
           \<and> set tips = set (leaves st) \<union> {Tip (chainActive st)}
           \<and> distinct tips \<and> tips \<noteq> []
           \<and> set tips \<subseteq> set (stored st)
           \<and> (\<forall>b\<in>set tips. b \<in> set (chainActive st) \<longleftrightarrow> b = Tip (chainActive st))
           \<and> (\<forall>b\<in>set tips. tip_object x st b = Some (Inr (object_of x st b)))
           \<and> getchaintips x st [] False =
               Some (Inr (concat (map (\<lambda>b. map (object_of x st) tips) tips)))"
proof -
  from wf_tips [OF assms] obtain tips where
    t: "chain_tips st = Inr tips" "set tips = set (leaves st) \<union> {Tip (chainActive st)}"
       "distinct tips" "tips \<noteq> []" "set tips \<subseteq> set (stored st)"
       "\<forall>b\<in>set tips. b \<in> set (chainActive st) \<longleftrightarrow> b = Tip (chainActive st)"
    by blast
  have o: "\<exists>obj. tip_object x st b = Some (Inr obj)" if "b \<in> set tips" for b
  proof -
    from that t(5,6) have "b \<in> set (stored st)"
      and "b \<in> set (chainActive st) \<longleftrightarrow> b = Tip (chainActive st)"
      by auto
    from tip_object_wf [OF assms this] show ?thesis by blast
  qed
  have o': "\<forall>b\<in>set tips. tip_object x st b = Some (Inr (object_of x st b))"
  proof
    fix b assume "b \<in> set tips"
    from o [OF this] obtain obj where "tip_object x st b = Some (Inr obj)" by blast
    then show "tip_object x st b = Some (Inr (object_of x st b))"
      by (simp add: object_of_def)
  qed
  have "getchaintips x st [] False =
      Some (Inr (concat (map (\<lambda>b. map (object_of x st) tips) tips)))"
    using o by (simp add: getchaintips_def t(1) outer_loop_ok)
  with t o' show ?thesis by blast
qed

lemma wf_fork_state: "wf_state fork_state"
  by (simp add: wf_state_def fork_state_def fork_memory_def stored_def is_object_def
      parent_of_def height_of_def NULL_def upt_rec)

lemma wf_forest_state: "wf_state forest_state"
  by (simp add: wf_state_def forest_state_def forest_memory_def fork_memory_def stored_def
      is_object_def parent_of_def height_of_def NULL_def upt_rec)

lemma length_filter_copies:
  "length (filter P (concat (map (\<lambda>b. ys) bs))) = length bs * length (filter P ys)"
  by (induction bs) simp_all

lemma length_filter_eq_distinct:
  "distinct xs \<Longrightarrow> x \<in> set xs \<Longrightarrow> length (filter (\<lambda>y. y = x) xs) = 1"
proof (induction xs)
  case Nil
  then show ?case by simp
next
  case (Cons a xs)
  show ?case
  proof (cases "a = x")
    case True
    with Cons.prems have "x \<notin> set xs" by simp
    then have "filter (\<lambda>y. y = x) xs = []" by (auto simp: filter_empty_conv)
    with True show ?thesis by simp
  next
    case False
    with Cons show ?thesis by simp
  qed
qed

lemma is_active_object_of:
  assumes "wf_state st" and "b \<in> set (stored st)"
    and "b \<in> set (chainActive st) \<longleftrightarrow> b = Tip (chainActive st)"
  shows "is_active (object_of x st b) \<longleftrightarrow> b = Tip (chainActive st)"
proof -
  from tip_object_wf [OF assms, of x] obtain f r s where
    m: "memory st b = Some r" and
    *: "f = NULL \<and> b \<noteq> Tip (chainActive st)
        \<or> f \<noteq> NULL \<and> height_of (memory st) f \<le> height_of (memory st) b
          \<and> (b = Tip (chainActive st) \<longrightarrow> f = b)"
       "s = ''active'' \<longleftrightarrow> b = Tip (chainActive st)"
       "tip_object x st b =
             Some (Inr (if f \<noteq> NULL
                        then [(''height'', VNUM (nHeight r)),
                              (''hash'', VHEX (phashBlock r)),
                              (''branchlen'', VNUM (height_of (memory st) b - height_of (memory st) f)),
                              (''status'', VSTR s)]
                        else [(''height'', VNUM (nHeight r)),
                              (''hash'', VHEX (phashBlock r))]))"
    by blast
  show ?thesis
  proof (cases "f = NULL")
    case True
    with * show ?thesis by (simp add: is_active_def object_of_def)
  next
    case False
    with * show ?thesis by (simp add: is_active_def object_of_def)
  qed
qed

text \<open>
  The doubled loop header: in a well-formed state with \<open>n\<close> tips the list has \<open>n * n\<close>
  entries, and \<open>n\<close> of them have the status \<open>active\<close>.
\<close>

lemma getchaintips_active_count:
  assumes "wf_state st"
  shows "\<exists>tips res. chain_tips st = Inr tips
           \<and> getchaintips x st [] False = Some (Inr res)
           \<and> length res = length tips * length tips
           \<and> length (filter is_active res) = length tips"
proof -
  from getchaintips_wf [OF assms, of x] obtain tips where
    t: "chain_tips st = Inr tips" "set tips = set (leaves st) \<union> {Tip (chainActive st)}"
       "distinct tips" "set tips \<subseteq> set (stored st)"
       "\<forall>b\<in>set tips. b \<in> set (chainActive st) \<longleftrightarrow> b = Tip (chainActive st)"
       "getchaintips x st [] False =
          Some (Inr (concat (map (\<lambda>b. map (object_of x st) tips) tips)))"
    by blast
  let ?objs = "map (object_of x st) tips"
  have eq: "filter (\<lambda>b. is_active (object_of x st b)) tips
      = filter (\<lambda>b. b = Tip (chainActive st)) tips"
  proof (rule filter_cong [OF refl])
    fix b assume "b \<in> set tips"
    with t(4,5) have "b \<in> set (stored st)"
      and "b \<in> set (chainActive st) \<longleftrightarrow> b = Tip (chainActive st)"
      by auto
    from is_active_object_of [OF assms this]
    show "is_active (object_of x st b) = (b = Tip (chainActive st))" .
  qed
  have "Tip (chainActive st) \<in> set tips" using t(2) by simp
  from length_filter_eq_distinct [OF t(3) this]
  have "length (filter (\<lambda>b. is_active (object_of x st b)) tips) = 1"
    by (simp only: eq)
  moreover have "length (filter is_active ?objs)
      = length (filter (\<lambda>b. is_active (object_of x st b)) tips)"
    by (simp add: filter_map comp_def)
  ultimately have one: "length (filter is_active ?objs) = 1" by (simp only:)
  have all: "length (concat (map (\<lambda>b. ?objs) tips)) = length tips * length tips"
    using length_filter_copies [of "\<lambda>_. True" ?objs tips] by simp
  have "length (filter is_active (concat (map (\<lambda>b. ?objs) tips))) = length tips * 1"
    by (simp only: length_filter_copies one)
  then have "length (filter is_active (concat (map (\<lambda>b. ?objs) tips))) = length tips"
    by simp
  with all show ?thesis using t(1,6) by blast
qed

subsection \<open>The claims about getchaintips\<close>

lemmas eval_defs =
  getchaintips_def chain_tips_def candidate_tips_def CompareBlocksByHeight_def deref_def
  NULL_def Tip_def tip_object_def FindFork.simps Contains_def chain_at_def Height_def
  tip_status_def int32_def example_externals_def is_active_def

text \<open>
  Claim C1. The tip list should hold exactly one entry with the status \<open>active\<close>, the
  entry of \<open>chainActive.Tip()\<close>. On the scenario of the spec, the chain of three headers
  with a competing header at height 2, the tip set is the active tip and the competing
  header, and the doubled loop header makes \<open>getchaintips\<close> return four entries, two
  of them the entry of the active tip with the status \<open>active\<close>.
\<close>

theorem getchaintips_fork_state_two_active:
  "chain_tips fork_state = Inr [3, 4]
   \<and> Tip (chainActive fork_state) = 3
   \<and> getchaintips example_externals fork_state [] False =
       Some (Inr [[(''height'', VNUM 2), (''hash'', VHEX 0xA2), (''branchlen'', VNUM 0),
                   (''status'', VSTR ''active'')],
                  [(''height'', VNUM 2), (''hash'', VHEX 0xB2), (''branchlen'', VNUM 1),
                   (''status'', VSTR ''valid-fork'')],
                  [(''height'', VNUM 2), (''hash'', VHEX 0xA2), (''branchlen'', VNUM 0),
                   (''status'', VSTR ''active'')],
                  [(''height'', VNUM 2), (''hash'', VHEX 0xB2), (''branchlen'', VNUM 1),
                   (''status'', VSTR ''valid-fork'')]])
   \<and> (\<exists>res. getchaintips example_externals fork_state [] False = Some (Inr res)
            \<and> length (filter is_active res) = 2)"
  by (simp add: eval_defs fork_state_def fork_memory_def)

text \<open>
  Claim C7, as stated: every entry carries the four fields, also the entry of a tip for
  which \<open>FindFork\<close> finds no common block. It fails on the store with a second tree:
  the state is well-formed, \<open>FindFork\<close> returns the null pointer for the header of the
  second tree, and the entry of that header has a height and a hash and neither
  \<open>branchlen\<close> nor \<open>status\<close>.
\<close>

theorem getchaintips_forest_entry_without_status:
  "wf_state forest_state
   \<and> FindFork (memory forest_state) (chainActive forest_state) 5 = Some (Inr NULL)
   \<and> getchaintips example_externals forest_state [] False =
       Some (Inr [[(''height'', VNUM 2), (''hash'', VHEX 0xA2), (''branchlen'', VNUM 0),
                   (''status'', VSTR ''active'')],
                  [(''height'', VNUM 0), (''hash'', VHEX 0xC0)],
                  [(''height'', VNUM 2), (''hash'', VHEX 0xA2), (''branchlen'', VNUM 0),
                   (''status'', VSTR ''active'')],
                  [(''height'', VNUM 0), (''hash'', VHEX 0xC0)]])
   \<and> map_of [(''height'', VNUM 0), (''hash'', VHEX (0xC0 :: uint256))] ''branchlen'' = None
   \<and> map_of [(''height'', VNUM 0), (''hash'', VHEX (0xC0 :: uint256))] ''status'' = None"
  using wf_forest_state
  by (simp add: eval_defs forest_state_def forest_memory_def fork_memory_def)




text \<open>
  Claim C5. In a well-formed state every entry is the object of a block of the tip set,
  and the \<open>branchlen\<close> an entry reports is the height of its block minus the height of
  the block that \<open>FindFork\<close> returns for it. For the active tip \<open>FindFork\<close> returns the
  tip itself, and the entry of the active tip reports the \<open>branchlen\<close> 0.
\<close>

theorem getchaintips_branchlen:
  assumes "wf_state st"
  shows "\<exists>tips res.
           chain_tips st = Inr tips \<and> getchaintips x st [] False = Some (Inr res)
         \<and> (\<forall>obj\<in>set res. \<exists>b\<in>set tips. tip_object x st b = Some (Inr obj))
         \<and> (\<forall>b\<in>set tips. \<exists>f obj.
               FindFork (memory st) (chainActive st) b = Some (Inr f)
             \<and> tip_object x st b = Some (Inr obj)
             \<and> map_of obj ''height'' = Some (VNUM (height_of (memory st) b))
             \<and> map_of obj ''branchlen'' =
                 (if f = NULL then None
                  else Some (VNUM (height_of (memory st) b - height_of (memory st) f))))
         \<and> Tip (chainActive st) \<in> set tips
         \<and> FindFork (memory st) (chainActive st) (Tip (chainActive st))
             = Some (Inr (Tip (chainActive st)))
         \<and> (\<exists>obj. tip_object x st (Tip (chainActive st)) = Some (Inr obj)
                \<and> map_of obj ''branchlen'' = Some (VNUM 0))"
proof -
  let ?m = "memory st" and ?c = "chainActive st"
  from getchaintips_wf [OF assms, of x] obtain tips where
    t: "chain_tips st = Inr tips" "set tips \<subseteq> set (stored st)"
       "set tips = set (leaves st) \<union> {Tip ?c}"
       "\<forall>b\<in>set tips. b \<in> set ?c \<longleftrightarrow> b = Tip ?c"
       "\<forall>b\<in>set tips. tip_object x st b = Some (Inr (object_of x st b))"
       "getchaintips x st [] False =
          Some (Inr (concat (map (\<lambda>b. map (object_of x st) tips) tips)))"
    by blast
  let ?res = "concat (map (\<lambda>b. map (object_of x st) tips) tips)"
  have all: "\<forall>obj\<in>set ?res. \<exists>b\<in>set tips. tip_object x st b = Some (Inr obj)"
    using t(5) by auto
  have each: "\<exists>f obj.
               FindFork ?m ?c b = Some (Inr f)
             \<and> tip_object x st b = Some (Inr obj)
             \<and> map_of obj ''height'' = Some (VNUM (height_of ?m b))
             \<and> map_of obj ''branchlen'' =
                 (if f = NULL then None else Some (VNUM (height_of ?m b - height_of ?m f)))
             \<and> (b = Tip ?c \<longrightarrow> f = b)"
    if b: "b \<in> set tips" for b
  proof -
    from b t(2,4) have "b \<in> set (stored st)" and "b \<in> set ?c \<longleftrightarrow> b = Tip ?c"
      by auto
    from tip_object_wf [OF assms this, of x] obtain f r s where
      *: "FindFork ?m ?c b = Some (Inr f)" "?m b = Some r"
         "f = NULL \<and> b \<noteq> Tip ?c
          \<or> f \<noteq> NULL \<and> height_of ?m f \<le> height_of ?m b \<and> (b = Tip ?c \<longrightarrow> f = b)"
         "tip_object x st b =
             Some (Inr (if f \<noteq> NULL
                        then [(''height'', VNUM (nHeight r)),
                              (''hash'', VHEX (phashBlock r)),
                              (''branchlen'', VNUM (height_of ?m b - height_of ?m f)),
                              (''status'', VSTR s)]
                        else [(''height'', VNUM (nHeight r)),
                              (''hash'', VHEX (phashBlock r))]))"
      by blast
    from *(2) have h: "height_of ?m b = nHeight r" by (simp add: height_of_def)
    show ?thesis
    proof (cases "f = NULL")
      case True
      with * h show ?thesis by auto
    next
      case False
      with * h show ?thesis by auto
    qed
  qed
  have tt: "Tip ?c \<in> set tips" using t(3) by simp
  from each [OF tt] obtain f obj where
    f: "FindFork ?m ?c (Tip ?c) = Some (Inr f)" "tip_object x st (Tip ?c) = Some (Inr obj)"
       "map_of obj ''branchlen'' =
          (if f = NULL then None else Some (VNUM (height_of ?m (Tip ?c) - height_of ?m f)))"
       "f = Tip ?c"
    by blast
  have "Tip ?c \<noteq> NULL"
    using wf_stored(1) [OF assms] t(2) tt by (auto simp: is_object_def)
  with f have "FindFork ?m ?c (Tip ?c) = Some (Inr (Tip ?c))"
    and "\<exists>obj. tip_object x st (Tip ?c) = Some (Inr obj)
                \<and> map_of obj ''branchlen'' = Some (VNUM 0)"
    by auto
  moreover from each have "\<forall>b\<in>set tips. \<exists>f obj.
               FindFork ?m ?c b = Some (Inr f)
             \<and> tip_object x st b = Some (Inr obj)
             \<and> map_of obj ''height'' = Some (VNUM (height_of ?m b))
             \<and> map_of obj ''branchlen'' =
                 (if f = NULL then None else Some (VNUM (height_of ?m b - height_of ?m f)))"
    by blast
  ultimately show ?thesis using t(1,6) all tt by blast
qed

theorem getchaintips_branchlen_witness:
  "wf_state fork_state
   \<and> (\<exists>tips res.
           chain_tips fork_state = Inr tips
         \<and> getchaintips example_externals fork_state [] False = Some (Inr res)
         \<and> (\<forall>obj\<in>set res. \<exists>b\<in>set tips. tip_object example_externals fork_state b = Some (Inr obj))
         \<and> (\<forall>b\<in>set tips. \<exists>f obj.
               FindFork (memory fork_state) (chainActive fork_state) b = Some (Inr f)
             \<and> tip_object example_externals fork_state b = Some (Inr obj)
             \<and> map_of obj ''height'' = Some (VNUM (height_of (memory fork_state) b))
             \<and> map_of obj ''branchlen'' =
                 (if f = NULL then None
                  else Some (VNUM (height_of (memory fork_state) b - height_of (memory fork_state) f))))
         \<and> Tip (chainActive fork_state) \<in> set tips
         \<and> FindFork (memory fork_state) (chainActive fork_state) (Tip (chainActive fork_state))
             = Some (Inr (Tip (chainActive fork_state)))
         \<and> (\<exists>obj. tip_object example_externals fork_state (Tip (chainActive fork_state)) = Some (Inr obj)
                \<and> map_of obj ''branchlen'' = Some (VNUM 0)))"
  using getchaintips_branchlen [OF wf_fork_state, of example_externals] wf_fork_state
  by blast

text \<open>
  Claim C7, amended. In a well-formed state every entry is the object of a block of the
  tip set; it carries \<open>height\<close> and \<open>hash\<close>, and it carries \<open>branchlen\<close> and \<open>status\<close>
  after them exactly when \<open>FindFork\<close> returns a block for its tip. The entry of a tip
  with no block in common with the active chain has the fields \<open>height\<close> and \<open>hash\<close>
  only.
\<close>

theorem getchaintips_fields:
  assumes "wf_state st"
  shows "\<exists>tips res.
           chain_tips st = Inr tips \<and> getchaintips x st [] False = Some (Inr res)
         \<and> (\<forall>obj\<in>set res. \<exists>b\<in>set tips. tip_object x st b = Some (Inr obj))
         \<and> (\<forall>b\<in>set tips. \<exists>f obj.
               FindFork (memory st) (chainActive st) b = Some (Inr f)
             \<and> tip_object x st b = Some (Inr obj)
             \<and> map fst obj =
                 (if f \<noteq> NULL then [''height'', ''hash'', ''branchlen'', ''status'']
                  else [''height'', ''hash'']))"
proof -
  let ?m = "memory st" and ?c = "chainActive st"
  from getchaintips_wf [OF assms, of x] obtain tips where
    t: "chain_tips st = Inr tips" "set tips \<subseteq> set (stored st)"
       "\<forall>b\<in>set tips. b \<in> set ?c \<longleftrightarrow> b = Tip ?c"
       "\<forall>b\<in>set tips. tip_object x st b = Some (Inr (object_of x st b))"
       "getchaintips x st [] False =
          Some (Inr (concat (map (\<lambda>b. map (object_of x st) tips) tips)))"
    by blast
  let ?res = "concat (map (\<lambda>b. map (object_of x st) tips) tips)"
  have all: "\<forall>obj\<in>set ?res. \<exists>b\<in>set tips. tip_object x st b = Some (Inr obj)"
    using t(4) by auto
  have "\<exists>f obj.
               FindFork ?m ?c b = Some (Inr f)
             \<and> tip_object x st b = Some (Inr obj)
             \<and> map fst obj =
                 (if f \<noteq> NULL then [''height'', ''hash'', ''branchlen'', ''status'']
                  else [''height'', ''hash''])"
    if b: "b \<in> set tips" for b
  proof -
    from b t(2,3) have "b \<in> set (stored st)" and "b \<in> set ?c \<longleftrightarrow> b = Tip ?c"
      by auto
    from tip_object_wf [OF assms this, of x] obtain f r s where
      *: "FindFork ?m ?c b = Some (Inr f)" "?m b = Some r"
         "tip_object x st b =
             Some (Inr (if f \<noteq> NULL
                        then [(''height'', VNUM (nHeight r)),
                              (''hash'', VHEX (phashBlock r)),
                              (''branchlen'', VNUM (height_of ?m b - height_of ?m f)),
                              (''status'', VSTR s)]
                        else [(''height'', VNUM (nHeight r)),
                              (''hash'', VHEX (phashBlock r))]))"
      by blast
    show ?thesis
    proof (cases "f = NULL")
      case True
      with * show ?thesis by auto
    next
      case False
      with * show ?thesis by auto
    qed
  qed
  then show ?thesis using t(1,5) all by blast
qed

theorem getchaintips_fields_witness:
  "wf_state forest_state
   \<and> (\<exists>tips res.
           chain_tips forest_state = Inr tips
         \<and> getchaintips example_externals forest_state [] False = Some (Inr res)
         \<and> (\<forall>obj\<in>set res. \<exists>b\<in>set tips. tip_object example_externals forest_state b = Some (Inr obj))
         \<and> (\<forall>b\<in>set tips. \<exists>f obj.
               FindFork (memory forest_state) (chainActive forest_state) b = Some (Inr f)
             \<and> tip_object example_externals forest_state b = Some (Inr obj)
             \<and> map fst obj =
                 (if f \<noteq> NULL then [''height'', ''hash'', ''branchlen'', ''status'']
                  else [''height'', ''hash''])))"
  using getchaintips_fields [OF wf_forest_state, of example_externals] wf_forest_state
  by blast

subsection \<open>Difficulty\<close>













text \<open>
  Claim C9. When the active chain has no tip, the network difficulty query, which is
  \<open>GetNetworkDifficulty()\<close> with no block as the RPC \<open>getdifficulty\<close> calls it, returns
  the fixed value 1.0.
\<close>

theorem GetNetworkDifficulty_empty_chain:
  assumes "Tip (chainActive st) = NULL"
  shows "GetDifficultyINTERNAL x st NULL True = Inr (Finite 1.0)
       \<and> GetNetworkDifficulty x st NULL = Inr (Finite 1.0)
       \<and> getdifficulty x st [] False = Inr (Finite 1.0)"
  using assms
  by (simp add: getdifficulty_def GetNetworkDifficulty_def GetDifficultyINTERNAL_def)

theorem GetNetworkDifficulty_empty_chain_witness:
  "chainActive empty_state = [] \<and> Tip (chainActive empty_state) = NULL
   \<and> GetDifficultyINTERNAL example_externals empty_state NULL True = Inr (Finite 1.0)
   \<and> GetNetworkDifficulty example_externals empty_state NULL = Inr (Finite 1.0)
   \<and> getdifficulty example_externals empty_state [] False = Inr (Finite 1.0)"
proof -
  have e: "chainActive empty_state = []" by (simp add: empty_state_def)
  then have t: "Tip (chainActive empty_state) = NULL" by (simp add: Tip_def)
  from GetNetworkDifficulty_empty_chain [OF t, of example_externals] e t
  show ?thesis by simp
qed

subsection \<open>getblockhash\<close>

text \<open>
  Claim C8. For a requested height \<open>h\<close>, \<open>getblockhash\<close> fails with the error "Block
  height out of range" exactly when \<open>h\<close> is negative or exceeds the height of the active
  chain, as the lookup \<open>at\<close> of the spec fails with \<open>OutOfRange\<close> exactly then; otherwise
  the lookup gives the block of the active chain at index \<open>h\<close> and \<open>getblockhash\<close>
  returns the hash of that block.
\<close>

theorem getblockhash_out_of_range:
  assumes "in_int32 h"
  shows "(getblockhash st [VNUM h] False
            = Inl (JSONRPCError RPC_INVALID_PARAMETER ''Block height out of range'')
          \<longleftrightarrow> h < 0 \<or> h > Height (chainActive st))
       \<and> (chain_at (chainActive st) h = Inl OutOfRange
          \<longleftrightarrow> h < 0 \<or> h > Height (chainActive st))
       \<and> (0 \<le> h \<and> h \<le> Height (chainActive st)
            \<longrightarrow> chain_at (chainActive st) h = Inr (chainActive st ! nat h))
       \<and> (0 \<le> h \<and> h \<le> Height (chainActive st)
          \<and> chainActive st ! nat h \<noteq> NULL \<and> memory st (chainActive st ! nat h) = Some r
            \<longrightarrow> getblockhash st [VNUM h] False = Inr (VHEX (phashBlock r)))"
  using assms
  by (auto simp: getblockhash_def get_int_def chain_at_def deref_def
           split: option.splits sum.splits)

theorem getblockhash_out_of_range_witness:
  "in_int32 5 \<and> in_int32 3
   \<and> Height (chainActive long_state) = 3
   \<and> getblockhash long_state [VNUM 5] False
       = Inl (JSONRPCError RPC_INVALID_PARAMETER ''Block height out of range'')
   \<and> chain_at (chainActive long_state) 5 = Inl OutOfRange
   \<and> chain_at (chainActive long_state) 3 = Inr 6
   \<and> getblockhash long_state [VNUM 3] False = Inr (VHEX 0xA3)"
proof -
  have i: "in_int32 5" "in_int32 3" by (simp_all add: in_int32_def)
  have h: "Height (chainActive long_state) = 3"
    by (simp add: Height_def long_state_def)
  have c: "chainActive long_state ! nat 3 = 6" "(6 :: ptr) \<noteq> NULL"
    by (simp_all add: long_state_def NULL_def eval_nat_numeral)
  have m6: "memory long_state 6 =
      Some \<lparr>phashBlock = 0xA3, pprev = 3, nHeight = 3, nChainTx = 4, nStatus = 5,
            nBits = 0x1c00ffff\<rparr>"
    by (simp add: long_state_def long_memory_def fork_memory_def)
  from getblockhash_out_of_range [OF i(1), of long_state]
       getblockhash_out_of_range [OF i(2), of long_state
         "\<lparr>phashBlock = 0xA3, pprev = 3, nHeight = 3, nChainTx = 4, nStatus = 5,
            nBits = 0x1c00ffff\<rparr>"]
  show ?thesis using i h c m6 by simp
qed


subsection \<open>Confirmations\<close>



end
